theory Spec2Isabelle
  imports Complex_Main "HOL-Library.Word" "HOL-Library.Multiset"
begin

section \<open>JavaScript numbers, as far as a comparator result is observed\<close>

text \<open>
  A comparator returns a JavaScript \<^verbatim>\<open>number\<close>. The code only ever tests such a result
  with \<^verbatim>\<open>r !== 0\<close>, \<^verbatim>\<open>r > 0\<close> and \<^verbatim>\<open>r < 0\<close>, and builds one with \<^verbatim>\<open>a - b\<close>, unary minus
  and the literals 0, 1 and -1. The model keeps NaN and the two infinities apart from the
  finite values; a finite value is a real number and finite subtraction is exact (the
  rounded difference of two doubles has the sign of the exact one, and the negative zero
  is not told apart from zero by any of the tests above).
\<close>

datatype jsnum = NaN | NegInf | Fin real | PosInf

text \<open>\<^verbatim>\<open>Number.isNaN\<close>.\<close>

definition isNaN :: "jsnum \<Rightarrow> bool" where
  "isNaN v = (case v of NaN \<Rightarrow> True | _ \<Rightarrow> False)"

text \<open>
  The relational operator \<^verbatim>\<open>a < b\<close> on numbers: false as soon as one side is NaN.
  \<^verbatim>\<open>a > b\<close> is \<^verbatim>\<open>b < a\<close>. The non-strict order of the instance is only the reflexive
  closure of \<^verbatim>\<open><\<close>; the code never uses \<^verbatim>\<open><=\<close>.
\<close>

fun js_less :: "jsnum \<Rightarrow> jsnum \<Rightarrow> bool" where
  "js_less NaN _ = False"
| "js_less _ NaN = False"
| "js_less NegInf NegInf = False"
| "js_less NegInf _ = True"
| "js_less (Fin x) NegInf = False"
| "js_less (Fin x) (Fin y) = (x < y)"
| "js_less (Fin x) PosInf = True"
| "js_less PosInf _ = False"

text \<open>Binary and unary minus on numbers.\<close>

fun js_minus :: "jsnum \<Rightarrow> jsnum \<Rightarrow> jsnum" where
  "js_minus NaN _ = NaN"
| "js_minus _ NaN = NaN"
| "js_minus (Fin x) (Fin y) = Fin (x - y)"
| "js_minus (Fin x) NegInf = PosInf"
| "js_minus (Fin x) PosInf = NegInf"
| "js_minus PosInf PosInf = NaN"
| "js_minus PosInf _ = PosInf"
| "js_minus NegInf NegInf = NaN"
| "js_minus NegInf _ = NegInf"

fun js_uminus :: "jsnum \<Rightarrow> jsnum" where
  "js_uminus NaN = NaN"
| "js_uminus NegInf = PosInf"
| "js_uminus (Fin x) = Fin (- x)"
| "js_uminus PosInf = NegInf"

instantiation jsnum :: "{order, minus, uminus}"
begin

definition less_jsnum :: "jsnum \<Rightarrow> jsnum \<Rightarrow> bool" where
  "less_jsnum a b = js_less a b"

definition less_eq_jsnum :: "jsnum \<Rightarrow> jsnum \<Rightarrow> bool" where
  "less_eq_jsnum a b = (js_less a b \<or> a = b)"

definition minus_jsnum :: "jsnum \<Rightarrow> jsnum \<Rightarrow> jsnum" where
  "minus_jsnum a b = js_minus a b"

definition uminus_jsnum :: "jsnum \<Rightarrow> jsnum" where
  "uminus_jsnum a = js_uminus a"

instance
proof
  fix x y z :: jsnum
  show "(x < y) = (x \<le> y \<and> \<not> y \<le> x)"
    by (cases x; cases y) (auto simp: less_jsnum_def less_eq_jsnum_def)
  show "x \<le> x"
    by (simp add: less_eq_jsnum_def)
  show "x \<le> y \<Longrightarrow> y \<le> z \<Longrightarrow> x \<le> z"
    by (cases x; cases y; cases z) (auto simp: less_eq_jsnum_def)
  show "x \<le> y \<Longrightarrow> y \<le> x \<Longrightarrow> x = y"
    by (cases x; cases y) (auto simp: less_eq_jsnum_def)
qed

end

section \<open>Steps and Orders (order.ts)\<close>

text \<open>
  \<^verbatim>\<open>type DirectionSign = 1 | -1\<close>, and the number it stands for. \<^verbatim>\<open>Direction\<close> is the
  option vocabulary \<^verbatim>\<open>'asc' | 'desc'\<close>, mapped by \<^verbatim>\<open>directionSignByDirection\<close>.
\<close>

datatype DirectionSign = Plus_one | Minus_one

datatype Direction = asc | desc

fun sign_number :: "DirectionSign \<Rightarrow> jsnum" where
  "sign_number Plus_one = Fin 1"
| "sign_number Minus_one = Fin (- 1)"

fun directionSignByDirection :: "Direction \<Rightarrow> DirectionSign" where
  "directionSignByDirection asc = Plus_one"
| "directionSignByDirection desc = Minus_one"

text \<open>
  \<^verbatim>\<open>OrderStep<T>\<close>. Elements have type \<^typ>\<open>'a\<close>. Keys are \<^verbatim>\<open>unknown\<close> in the source and
  are compared with the host's \<^verbatim>\<open><\<close> and \<^verbatim>\<open>>\<close>; here they have a type \<^typ>\<open>'k\<close> of the
  class of types with an ordering, whose \<open><\<close> stands for the host operator
  (\<^typ>\<open>jsnum\<close> above is one instance, with NaN incomparable), and \<^verbatim>\<open>x > y\<close> is
  \<open>y < x\<close>. An absent optional member is \<^const>\<open>None\<close>.
\<close>

record ('a, 'k) OrderStep =
  key :: "'a \<Rightarrow> 'k"
  direction :: DirectionSign
  compare :: "('k \<Rightarrow> 'k \<Rightarrow> jsnum) option"
  predicate :: "('a \<Rightarrow> bool) option"

text \<open>\<^verbatim>\<open>class Order<T>\<close> with its private member \<^verbatim>\<open>_steps\<close>.\<close>

datatype ('a, 'k) Order = Order (steps: "('a, 'k) OrderStep list")

text \<open>
  The comparator returned by the getter \<^verbatim>\<open>compare\<close>: the loop over \<^verbatim>\<open>steps[i]\<close>, where
  \<^verbatim>\<open>continue\<close> and falling out of the loop body are the recursive call on the rest.
\<close>

fun compare_loop :: "('a, 'k::ord) OrderStep list \<Rightarrow> 'a \<Rightarrow> 'a \<Rightarrow> jsnum" where
  "compare_loop [] a b = Fin 0"
| "compare_loop (s # rest) a b =
     (let p = predicate s in
      if (case p of None \<Rightarrow> False | Some p \<Rightarrow> \<not> p a \<or> \<not> p b) then compare_loop rest a b
      else
        let x = key s a; y = key s b; c = compare s in
        (case c of
           Some c \<Rightarrow>
             (let r = c x y in
              if r \<noteq> Fin 0 then (if Fin 0 < r then sign_number (direction s)
                                  else - sign_number (direction s))
              else compare_loop rest a b)
         | None \<Rightarrow>
             if x < y then - sign_number (direction s)
             else if y < x then sign_number (direction s)
             else compare_loop rest a b))"

definition Order_compare :: "('a, 'k::ord) Order \<Rightarrow> 'a \<Rightarrow> 'a \<Rightarrow> jsnum" where
  "Order_compare this =
     (let steps = steps this; numberOfSteps = length steps in
      if numberOfSteps = 0 then (\<lambda>a b. Fin 0) else compare_loop steps)"

text \<open>\<^verbatim>\<open>static reverse\<close> and the instance method that delegates to it.\<close>

definition Order_reverse :: "('a, 'k) Order \<Rightarrow> ('a, 'k) Order" where
  "Order_reverse input =
     (if length (steps input) = 0 then Order []
      else Order (map (\<lambda>s. \<lparr> key = key s,
                              direction = (if direction s = Plus_one then Minus_one else Plus_one),
                              compare = compare s,
                              predicate = predicate s \<rparr>) (steps input)))"

definition reverse_method :: "('a, 'k) Order \<Rightarrow> ('a, 'k) Order" where
  "reverse_method this = Order_reverse this"

text \<open>
  \<^verbatim>\<open>KeyOptions<K, T>\<close>, the options of a step-producing operation, as the types module
  declares it: \<^verbatim>\<open>direction?: Direction\<close>, \<^verbatim>\<open>compare?: Comparator<K>\<close> and
  \<^verbatim>\<open>predicate?: (value: T) => boolean\<close>. Every member is optional, and so is the options
  object itself.
\<close>

record ('a, 'k) KeyOptions =
  opt_direction :: "Direction option"
  opt_compare :: "('k \<Rightarrow> 'k \<Rightarrow> jsnum) option"
  opt_predicate :: "('a \<Rightarrow> bool) option"

text \<open>The step that both \<^verbatim>\<open>by\<close> operations build from \<^verbatim>\<open>selectorFn\<close> and \<^verbatim>\<open>options\<close>.\<close>

definition by_step :: "('a \<Rightarrow> 'k) \<Rightarrow> ('a, 'k) KeyOptions option \<Rightarrow> ('a, 'k) OrderStep" where
  "by_step selectorFn options =
     (let direction = directionSignByDirection
            (case Option.bind options opt_direction of None \<Rightarrow> asc | Some d \<Rightarrow> d);
          compare = Option.bind options opt_compare
      in \<lparr> key = selectorFn, direction = direction, compare = compare,
           predicate = Option.bind options opt_predicate \<rparr>)"

definition Order_by :: "('a \<Rightarrow> 'k) \<Rightarrow> ('a, 'k) KeyOptions option \<Rightarrow> ('a, 'k) Order" where
  "Order_by selectorFn options = Order [by_step selectorFn options]"

definition by_method ::
  "('a, 'k) Order \<Rightarrow> ('a \<Rightarrow> 'k) \<Rightarrow> ('a, 'k) KeyOptions option \<Rightarrow> ('a, 'k) Order" where
  "by_method this selectorFn options = Order (steps this @ [by_step selectorFn options])"

text \<open>
  The constructor called with one source Order (an Order is not iterable, so the
  single-source branch runs): the steps are pushed one by one.
\<close>

definition Order_from :: "('a, 'k) Order option \<Rightarrow> ('a, 'k) Order" where
  "Order_from sourceOrSources =
     (case sourceOrSources of
        None \<Rightarrow> Order []
      | Some source \<Rightarrow>
          if length (steps source) = 0 then Order []
          else Order (fold (\<lambda>s pushed. pushed @ [s]) (steps source) []))"

text \<open>\<^verbatim>\<open>static map\<close> and \<^verbatim>\<open>static when\<close>.\<close>

definition Order_map :: "('a \<Rightarrow> 'b) \<Rightarrow> ('b, 'k) Order \<Rightarrow> ('a, 'k) Order" where
  "Order_map outer sub =
     (if length (steps sub) = 0 then Order []
      else Order (map (\<lambda>s. \<lparr> key = (\<lambda>t. key s (outer t)),
                              direction = direction s,
                              compare = compare s,
                              predicate = (case predicate s of
                                             Some p \<Rightarrow> Some (\<lambda>t. p (outer t))
                                           | None \<Rightarrow> None) \<rparr>) (steps sub)))"

definition Order_when :: "('a \<Rightarrow> bool) \<Rightarrow> ('a, 'k) Order \<Rightarrow> ('a, 'k) Order" where
  "Order_when pred input =
     (if length (steps input) = 0 then Order []
      else Order (map (\<lambda>step. \<lparr> key = key step,
                                 direction = direction step,
                                 compare = compare step,
                                 predicate = (case predicate step of
                                                Some p \<Rightarrow> Some (\<lambda>v. p v \<and> pred v)
                                              | None \<Rightarrow> Some pred) \<rparr>) (steps input)))"

text \<open>The instance methods \<^verbatim>\<open>map\<close> and \<^verbatim>\<open>when\<close>.\<close>

definition map_method ::
  "('a, 'k) Order \<Rightarrow> ('a \<Rightarrow> 'b) \<Rightarrow> ('b, 'k) Order \<Rightarrow> ('a, 'k) Order" where
  "map_method this outer sub =
     (if length (steps this) = 0 then Order_map outer sub
      else let mappedOrder = Order_map outer sub
           in Order (steps this @ steps mappedOrder))"

definition when_method ::
  "('a, 'k) Order \<Rightarrow> ('a \<Rightarrow> bool) \<Rightarrow> ('a, 'k) Order \<Rightarrow> ('a, 'k) Order" where
  "when_method this pred order =
     (let guarded = Order_when pred order in
      if length (steps this) = 0 then guarded
      else if length (steps guarded) = 0 then Order_from (Some this)
      else Order (steps this @ steps guarded))"

section \<open>The host's array primitives\<close>

text \<open>
  \<^verbatim>\<open>Array.prototype.sort(compareFn)\<close> belongs to the host. The language standard fixes one
  part of what it does: the elements that are \<^verbatim>\<open>undefined\<close> are set aside and put last,
  and the comparator never sees them. The other elements are rearranged by an algorithm of
  the host's own choosing, which looks at them through the comparator only. That algorithm
  is a parameter of the model: a sorter is given the number \<open>n\<close> of elements to arrange
  and the comparator as a function of their positions, and answers with the positions
  \<open>0, ..., n - 1\<close> in their final order.

  Which values of the element type are \<^verbatim>\<open>undefined\<close> is the parameter \<open>undef\<close>. Arrays are
  dense: an array with holes is not a value of the model.
\<close>

type_synonym sorter = "nat \<Rightarrow> (nat \<Rightarrow> nat \<Rightarrow> jsnum) \<Rightarrow> nat list"

definition Array_sort ::
  "sorter \<Rightarrow> ('a \<Rightarrow> bool) \<Rightarrow> ('a \<Rightarrow> 'a \<Rightarrow> jsnum) \<Rightarrow> 'a list \<Rightarrow> 'a list" where
  "Array_sort host undef compareFn elements =
     (let defined = filter (\<lambda>x. \<not> undef x) elements;
          final = host (length defined) (\<lambda>i j. compareFn (defined ! i) (defined ! j))
      in map (\<lambda>i. defined ! i) final @ filter undef elements)"

text \<open>An index is a number, and no number is \<^verbatim>\<open>undefined\<close>.\<close>

definition no_index_undefined :: "nat \<Rightarrow> bool" where
  "no_index_undefined i = False"

text \<open>
  What is asked of a host. A comparator result that is negative puts the first argument
  strictly before the second; zero and NaN do not. So \<open>x\<close> may precede \<open>y\<close> when the
  comparator does not put \<open>y\<close> strictly before \<open>x\<close>; two elements are tied when each may
  precede the other; and a comparator is consistent when this relation is total and
  transitive.
\<close>

definition may_precede :: "('a \<Rightarrow> 'a \<Rightarrow> jsnum) \<Rightarrow> 'a \<Rightarrow> 'a \<Rightarrow> bool" where
  "may_precede c x y = (\<not> c y x < Fin 0)"

definition tied :: "('a \<Rightarrow> 'a \<Rightarrow> jsnum) \<Rightarrow> 'a \<Rightarrow> 'a \<Rightarrow> bool" where
  "tied c x y = (may_precede c x y \<and> may_precede c y x)"

definition consistent :: "('a \<Rightarrow> 'a \<Rightarrow> jsnum) \<Rightarrow> bool" where
  "consistent c =
     ((\<forall>x y. may_precede c x y \<or> may_precede c y x)
    \<and> (\<forall>x y z. may_precede c x y \<longrightarrow> may_precede c y z \<longrightarrow> may_precede c x z))"

text \<open>
  The contract of the host's sort: the answer is a rearrangement of the positions; it
  depends on the comparator's results at the positions of the array and on nothing else;
  and the sort is stable, that is, for a consistent comparator the answer is sorted and
  tied positions keep their order. For a comparator that is not consistent the contract
  says nothing about the order.
\<close>

definition host_sort :: "sorter \<Rightarrow> bool" where
  "host_sort host =
     ((\<forall>n c. mset (host n c) = mset [0..<n])
    \<and> (\<forall>n c c'. (\<forall>i<n. \<forall>j<n. c i j = c' i j) \<longrightarrow> host n c = host n c')
    \<and> (\<forall>n c. consistent c \<longrightarrow>
           sorted_wrt (may_precede c) (host n c)
         \<and> (\<forall>a. filter (tied c a) (host n c) = filter (tied c a) [0..<n])))"

text \<open>
  One host that keeps the contract, for use in examples: a top-down merge sort. The right
  run gives its head only when the comparator puts it strictly before the head of the
  left run.
\<close>

fun merge_by :: "('a \<Rightarrow> 'a \<Rightarrow> jsnum) \<Rightarrow> 'a list \<Rightarrow> 'a list \<Rightarrow> 'a list" where
  "merge_by compareFn [] right = right"
| "merge_by compareFn left [] = left"
| "merge_by compareFn (l # left) (r # right) =
     (if compareFn r l < Fin 0 then r # merge_by compareFn (l # left) right
      else l # merge_by compareFn left (r # right))"

fun merge_sort :: "('a \<Rightarrow> 'a \<Rightarrow> jsnum) \<Rightarrow> 'a list \<Rightarrow> 'a list" where
  "merge_sort compareFn elements =
     (if length elements \<le> 1 then elements
      else let middle = length elements div 2
           in merge_by compareFn (merge_sort compareFn (take middle elements))
                                 (merge_sort compareFn (drop middle elements)))"

definition merge_sorter :: sorter where
  "merge_sorter n c = merge_sort c [0..<n]"

text \<open>
  Arrays are objects with an identity. A store is the list of the element arrays
  allocated so far, and a reference is a position in it; allocation appends, so a new
  reference differs from every reference in use. \<^verbatim>\<open>array.slice()\<close> allocates a copy,
  \<^verbatim>\<open>new Array\<close> filled by a loop allocates the filled array, and \<^verbatim>\<open>sort\<close> called on a
  reference sorts that array in place and returns the same reference.
\<close>

type_synonym 'a store = "'a list list"

definition new_Array :: "'a store \<Rightarrow> 'a list \<Rightarrow> 'a store \<times> nat" where
  "new_Array h elements = (h @ [elements], length h)"

definition Array_slice :: "'a store \<Rightarrow> nat \<Rightarrow> 'a store \<times> nat" where
  "Array_slice h array = new_Array h (h ! array)"

definition sort_in_place ::
  "sorter \<Rightarrow> ('a \<Rightarrow> bool) \<Rightarrow> ('a \<Rightarrow> 'a \<Rightarrow> jsnum) \<Rightarrow> 'a store \<times> nat \<Rightarrow> 'a store \<times> nat" where
  "sort_in_place host undef compareFn target = (case target of (h, array) \<Rightarrow>
     (h[array := Array_sort host undef compareFn (h ! array)], array))"

section \<open>\<^verbatim>\<open>Order.sort\<close>: decorate, sort the indexes, undecorate\<close>

text \<open>
  The decoration of one step \<open>j\<close> (the body of the first loop of \<^verbatim>\<open>Order.sort\<close>). The
  buffers made by \<^verbatim>\<open>new Array(arrayLength)\<close> start with empty slots: \<^const>\<open>None\<close> in
  \<open>keys\<close>, and the falsy \<^const>\<open>False\<close> in \<open>matches\<close>, which is only ever read under
  \<^verbatim>\<open>!\<close>. Every call of the step's key function is recorded as the pair of the step's
  position and the element's position, in the order the calls are made.
\<close>

definition decorate_step ::
  "nat \<Rightarrow> ('a, 'k) OrderStep \<Rightarrow> 'a list
     \<Rightarrow> 'k option list \<times> bool list option \<times> (nat \<times> nat) list" where
  "decorate_step j step array =
     (let arrayLength = length array;
          keys = replicate arrayLength None
      in case predicate step of
           Some p \<Rightarrow>
             (let matches = replicate arrayLength False;
                  (matches, keys, calls) =
                    fold (\<lambda>i (matches, keys, calls).
                            let item = array ! i;
                                match = p item;
                                matches = matches[i := match]
                            in if match
                               then (matches, keys[i := Some (key step item)], calls @ [(j, i)])
                               else (matches, keys, calls))
                         [0..<arrayLength] (matches, keys, [])
              in (keys, Some matches, calls))
         | None \<Rightarrow>
             (let (keys, calls) =
                    fold (\<lambda>i (keys, calls).
                            (keys[i := Some (key step (array ! i))], calls @ [(j, i)]))
                         [0..<arrayLength] (keys, [])
              in (keys, None, calls)))"

text \<open>The loop over the steps, filling \<open>keysPerStep\<close> and \<open>predicateMatchesPerStep\<close>.\<close>

fun decorate ::
  "nat \<Rightarrow> ('a, 'k) OrderStep list \<Rightarrow> 'a list
     \<Rightarrow> 'k option list list \<times> bool list option list \<times> (nat \<times> nat) list" where
  "decorate j [] array = ([], [], [])"
| "decorate j (step # rest) array =
     (let (keys, matches, calls) = decorate_step j step array;
          (keysPerStep, predicateMatchesPerStep, later) = decorate (Suc j) rest array
      in (keys # keysPerStep, matches # predicateMatchesPerStep, calls @ later))"

text \<open>
  \<open>dirs\<close> is an \<^verbatim>\<open>Int8Array\<close>: a direction sign is stored as a signed byte and read
  back as a number.
\<close>

fun Int8_of_sign :: "DirectionSign \<Rightarrow> 8 word" where
  "Int8_of_sign Plus_one = 1"
| "Int8_of_sign Minus_one = - 1"

definition number_of_Int8 :: "8 word \<Rightarrow> jsnum" where
  "number_of_Int8 w = Fin (real_of_int (sint w))"

text \<open>
  The comparator given to \<^verbatim>\<open>arrayIndexes.sort\<close>. It sees the four buffers only; the loop
  over \<open>j\<close> walks them in step. A key slot is read only after the match flags (when the
  step has a predicate) were found set for both indexes, so the slot has been written.
\<close>

fun index_compare ::
  "'k::ord option list list \<Rightarrow> bool list option list \<Rightarrow> 8 word list
     \<Rightarrow> ('k \<Rightarrow> 'k \<Rightarrow> jsnum) option list \<Rightarrow> nat \<Rightarrow> nat \<Rightarrow> jsnum" where
  "index_compare (kj # keysPerStep) (matches # predicateMatchesPerStep) (dj # dirs) (c # cmps)
       ia ib =
     (if (case matches of None \<Rightarrow> False | Some matches \<Rightarrow> \<not> matches ! ia \<or> \<not> matches ! ib)
      then index_compare keysPerStep predicateMatchesPerStep dirs cmps ia ib
      else
        let a = the (kj ! ia); b = the (kj ! ib); d = number_of_Int8 dj in
        (case c of
           Some c \<Rightarrow>
             (let r = c a b in
              if r \<noteq> Fin 0 then (if Fin 0 < r then d else - d)
              else index_compare keysPerStep predicateMatchesPerStep dirs cmps ia ib)
         | None \<Rightarrow>
             if a < b then - d
             else if b < a then d
             else index_compare keysPerStep predicateMatchesPerStep dirs cmps ia ib))"
| "index_compare _ _ _ _ ia ib = Fin 0"

text \<open>
  \<^verbatim>\<open>static sort\<close>, run on a host, on a store \<open>h\<close> and the reference \<open>array\<close> of the
  input. The result is the store after the call with the reference returned, and the
  record of the key calls. The elements are read as they are, \<^verbatim>\<open>undefined\<close> ones like
  any other; it is the array of index numbers that the host sorts.
\<close>

definition Order_sort ::
  "sorter \<Rightarrow> 'a store \<Rightarrow> nat \<Rightarrow> ('a, 'k::ord) Order
     \<Rightarrow> ('a store \<times> nat) \<times> (nat \<times> nat) list" where
  "Order_sort host h array order =
     (let steps = steps order;
          arrayLength = length (h ! array)
      in if arrayLength \<le> 1 then (Array_slice h array, [])
         else if length steps = 0 then (Array_slice h array, [])
         else
           let (keysPerStep, predicateMatchesPerStep, calls) = decorate 0 steps (h ! array);
               arrayIndexes = [0..<arrayLength];
               dirs = map (\<lambda>s. Int8_of_sign (direction s)) steps;
               cmps = map compare steps;
               arrayIndexes =
                 Array_sort host no_index_undefined
                   (index_compare keysPerStep predicateMatchesPerStep dirs cmps) arrayIndexes;
               out = map (\<lambda>i. (h ! array) ! i) arrayIndexes
           in (new_Array h out, calls))"

definition sort_method ::
  "('a, 'k::ord) Order \<Rightarrow> sorter \<Rightarrow> 'a store \<Rightarrow> nat
     \<Rightarrow> ('a store \<times> nat) \<times> (nat \<times> nat) list" where
  "sort_method this host h array = Order_sort host h array this"

text \<open>\<^verbatim>\<open>arr.slice().sort(compareFn)\<close>: copy, then sort the copy in place.\<close>

definition slice_then_sort ::
  "sorter \<Rightarrow> ('a \<Rightarrow> bool) \<Rightarrow> 'a store \<Rightarrow> nat \<Rightarrow> ('a \<Rightarrow> 'a \<Rightarrow> jsnum) \<Rightarrow> 'a store \<times> nat" where
  "slice_then_sort host undef h array compareFn =
     sort_in_place host undef compareFn (Array_slice h array)"

section \<open>The standalone comparators (comparator/index.ts)\<close>

text \<open>\<^verbatim>\<open>reverse\<close>, \<^verbatim>\<open>compare\<close>, \<^verbatim>\<open>number\<close>, \<^verbatim>\<open>by\<close> and \<^verbatim>\<open>order\<close>.\<close>

definition Comparator_reverse :: "('a \<Rightarrow> 'a \<Rightarrow> jsnum) \<Rightarrow> 'a \<Rightarrow> 'a \<Rightarrow> jsnum" where
  "Comparator_reverse compareFn = (\<lambda>a b. compareFn b a)"

definition Comparator_compare :: "'a::ord \<Rightarrow> 'a \<Rightarrow> jsnum" where
  "Comparator_compare a b = (if a < b then Fin (- 1) else if b < a then Fin 1 else Fin 0)"

definition number :: "jsnum \<Rightarrow> jsnum \<Rightarrow> jsnum" where
  "number a b =
     (let isANaN = isNaN a; isBNaN = isNaN b in
      if isANaN \<and> isBNaN then Fin 0
      else if isANaN then Fin (- 1)
      else if isBNaN then Fin 1
      else a - b)"

definition Comparator_by ::
  "('a \<Rightarrow> 'k::ord) \<Rightarrow> ('a, 'k) KeyOptions option \<Rightarrow> 'a \<Rightarrow> 'a \<Rightarrow> jsnum" where
  "Comparator_by keyFn options =
     (let compareFn = (case Option.bind options opt_compare of
                         None \<Rightarrow> Comparator_compare | Some c \<Rightarrow> c);
          direction = (case Option.bind options opt_direction of None \<Rightarrow> asc | Some d \<Rightarrow> d);
          pred = Option.bind options opt_predicate;
          compareFnWithDirection =
            (if direction = asc then compareFn else Comparator_reverse compareFn)
      in case pred of
           None \<Rightarrow> (\<lambda>a b. compareFnWithDirection (keyFn a) (keyFn b))
         | Some p \<Rightarrow>
             (\<lambda>a b. if \<not> p a \<or> \<not> p b then Fin 0
                    else compareFnWithDirection (keyFn a) (keyFn b)))"

fun Comparator_order :: "('a \<Rightarrow> 'a \<Rightarrow> jsnum) list \<Rightarrow> 'a \<Rightarrow> 'a \<Rightarrow> jsnum" where
  "Comparator_order [] a b = Fin 0"
| "Comparator_order (c # comparators) a b =
     (let r = c a b in if r \<noteq> Fin 0 then r else Comparator_order comparators a b)"

section \<open>The step walk as the specification words it\<close>

text \<open>A step applies to an element when it has no predicate or its predicate holds.\<close>

definition applies :: "('a, 'k) OrderStep \<Rightarrow> 'a \<Rightarrow> bool" where
  "applies s x = (case predicate s of None \<Rightarrow> True | Some p \<Rightarrow> p x)"

text \<open>
  The outcome of one step for a pair, after the specification of the comparator
  derivation: a step whose predicate is not satisfied by both elements is a tie; with a
  custom comparator a non-zero result \<open>r\<close> gives the direction if \<open>r > 0\<close> and its negation
  otherwise; with the default comparator \<open>x < y\<close> gives the negated direction and \<open>x > y\<close>
  the direction; everything else is a tie, written 0.
\<close>

definition spec_step :: "('a, 'k::ord) OrderStep \<Rightarrow> 'a \<Rightarrow> 'a \<Rightarrow> jsnum" where
  "spec_step s a b =
     (if predicate s \<noteq> None \<and> \<not> (applies s a \<and> applies s b) then Fin 0
      else
        let x = key s a; y = key s b in
        case compare s of
          Some c \<Rightarrow>
            (let r = c x y in
             if r \<noteq> Fin 0 then (if Fin 0 < r then sign_number (direction s)
                                 else - sign_number (direction s))
             else Fin 0)
        | None \<Rightarrow>
            if x < y then - sign_number (direction s)
            else if y < x then sign_number (direction s)
            else Fin 0)"

text \<open>The walk returns the outcome of the first step that does not tie, and 0 if all tie.\<close>

fun spec_walk :: "('a, 'k::ord) OrderStep list \<Rightarrow> 'a \<Rightarrow> 'a \<Rightarrow> jsnum" where
  "spec_walk [] a b = Fin 0"
| "spec_walk (s # rest) a b =
     (if spec_step s a b \<noteq> Fin 0 then spec_step s a b else spec_walk rest a b)"

definition spec_compare :: "('a, 'k::ord) Order \<Rightarrow> 'a \<Rightarrow> 'a \<Rightarrow> jsnum" where
  "spec_compare order a b = (if steps order = [] then Fin 0 else spec_walk (steps order) a b)"

text \<open>
  Two comparator results have opposite signs: neither is NaN, one is zero exactly when the
  other is, and one is positive exactly when the other is negative.
\<close>

definition opposite_signs :: "jsnum \<Rightarrow> jsnum \<Rightarrow> bool" where
  "opposite_signs r r' =
     (\<not> isNaN r \<and> \<not> isNaN r' \<and> (r = Fin 0) = (r' = Fin 0) \<and> (Fin 0 < r) = (r' < Fin 0))"

text \<open>
  The number \<open>k\<close> of elements that a predicate excludes, and the key calls that
  \<^verbatim>\<open>Order.sort\<close> records.
\<close>

definition excluded :: "('a \<Rightarrow> bool) \<Rightarrow> 'a list \<Rightarrow> nat" where
  "excluded p elements = length (filter (\<lambda>x. \<not> p x) elements)"

definition key_calls ::
  "sorter \<Rightarrow> 'a store \<Rightarrow> nat \<Rightarrow> ('a, 'k::ord) Order \<Rightarrow> (nat \<times> nat) list" where
  "key_calls host h array order = snd (Order_sort host h array order)"

section \<open>Example data\<close>

definition is_positive :: "int \<Rightarrow> bool" where
  "is_positive x = (0 < x)"

definition difference :: "int \<Rightarrow> int \<Rightarrow> jsnum" where
  "difference x y = Fin (real_of_int (x - y))"

definition always_one :: "int \<Rightarrow> int \<Rightarrow> jsnum" where
  "always_one x y = Fin 1"

definition guarded_desc :: "(int, int) KeyOptions" where
  "guarded_desc =
     \<lparr> opt_direction = Some desc, opt_compare = None, opt_predicate = Some is_positive \<rparr>"

definition with_difference :: "(int, int) KeyOptions" where
  "with_difference =
     \<lparr> opt_direction = None, opt_compare = Some difference, opt_predicate = None \<rparr>"

definition with_always_one :: "(int, int) KeyOptions" where
  "with_always_one =
     \<lparr> opt_direction = None, opt_compare = Some always_one, opt_predicate = None \<rparr>"

definition with_number :: "(jsnum, jsnum) KeyOptions" where
  "with_number = \<lparr> opt_direction = None, opt_compare = Some number, opt_predicate = None \<rparr>"

definition only_positive :: "(int, int) KeyOptions" where
  "only_positive =
     \<lparr> opt_direction = None, opt_compare = None, opt_predicate = Some is_positive \<rparr>"

text \<open>Descending on the positive elements, then ascending by a subtracting comparator.\<close>

definition example_order :: "(int, int) Order" where
  "example_order = by_method (Order_by id (Some guarded_desc)) id (Some with_difference)"

text \<open>A projection for lifting an Order over halves to an Order over integers.\<close>

definition halve :: "int \<Rightarrow> int" where
  "halve x = x div 2"

text \<open>
  Elements that may be \<^verbatim>\<open>undefined\<close>: \<^const>\<open>None\<close> stands for it. The key function
  \<^verbatim>\<open>x => x === undefined ? 2 : x\<close>, and an ascending Order by the number itself.
\<close>

definition is_undefined :: "int option \<Rightarrow> bool" where
  "is_undefined x = (x = None)"



definition no_steps :: "(int option, int) Order" where
  "no_steps = Order []"

definition ascending :: "(int, int) Order" where
  "ascending = Order_by id (Some with_difference)"

section \<open>Auxiliary facts\<close>

lemmas jsnum_ops = less_jsnum_def less_eq_jsnum_def minus_jsnum_def uminus_jsnum_def

lemmas example_defs = example_order_def by_method_def Order_by_def by_step_def
  guarded_desc_def with_difference_def with_always_one_def with_number_def only_positive_def
  is_positive_def difference_def always_one_def

lemma sign_number_nonzero [simp]: "sign_number d \<noteq> Fin 0" "- sign_number d \<noteq> Fin 0"
  by (cases d; simp add: jsnum_ops)+

subsection \<open>The comparator loop\<close>

lemma Order_compare_loop: "Order_compare order a b = compare_loop (steps order) a b"
  by (cases "steps order") (simp_all add: Order_compare_def)

lemma compare_loop_step:
  "compare_loop (s # rest) a b =
     (if spec_step s a b \<noteq> Fin 0 then spec_step s a b else compare_loop rest a b)"
  by (simp add: spec_step_def applies_def Let_def split: option.splits)

lemma compare_loop_walk: "compare_loop ss a b = spec_walk ss a b"
  by (induction ss) (simp_all only: compare_loop_step spec_walk.simps compare_loop.simps)

lemma compare_loop_ties:
  "(\<forall>s\<in>set ss. spec_step s a b = Fin 0) \<Longrightarrow> compare_loop ss a b = Fin 0"
  by (induction ss) (simp_all only: compare_loop_step compare_loop.simps list.set, simp_all)

lemma compare_loop_append:
  "compare_loop (xs @ ys) a b =
     (if compare_loop xs a b \<noteq> Fin 0 then compare_loop xs a b else compare_loop ys a b)"
  by (induction xs) (simp_all only: compare_loop_step append.simps compare_loop.simps, simp_all)

lemma spec_step_range: "spec_step s a b \<in> {Fin (- 1), Fin 0, Fin 1}"
  by (cases "direction s") (auto simp: spec_step_def Let_def jsnum_ops split: option.splits)

lemma compare_loop_range: "compare_loop ss a b \<in> {Fin (- 1), Fin 0, Fin 1}"
proof (induction ss)
  case Nil
  then show ?case by simp
next
  case (Cons s ss)
  then show ?case
    using spec_step_range [of s a b] by (simp only: compare_loop_step) auto
qed

subsection \<open>Swapping the arguments of the comparator\<close>

lemma opposite_signs_flip:
  "opposite_signs r r' \<Longrightarrow> (Fin 0 < r') = (r < Fin 0)"
  by (cases r; cases r') (auto simp: opposite_signs_def isNaN_def jsnum_ops)

lemma spec_step_flip:
  fixes s :: "('a, 'k::preorder) OrderStep"
  assumes "\<forall>c. compare s = Some c \<longrightarrow> opposite_signs (c (key s a) (key s b)) (c (key s b) (key s a))"
  shows "spec_step s a b = - spec_step s b a"
proof (cases "compare s")
  case None
  then show ?thesis
    using less_asym [of "key s a" "key s b"]
    by (cases "direction s") (auto simp: spec_step_def Let_def jsnum_ops)
next
  case (Some c)
  with assms have o: "opposite_signs (c (key s a) (key s b)) (c (key s b) (key s a))" by simp
  then have z: "(c (key s a) (key s b) = Fin 0) = (c (key s b) (key s a) = Fin 0)"
    and p: "(Fin 0 < c (key s a) (key s b)) = (c (key s b) (key s a) < Fin 0)"
    by (simp_all add: opposite_signs_def)
  have n: "\<not> (Fin 0 < r \<and> r < Fin 0)" for r :: jsnum
    by (cases r) (simp_all add: jsnum_ops)
  have t: "r \<noteq> Fin 0 \<Longrightarrow> \<not> isNaN r \<Longrightarrow> Fin 0 < r \<or> r < Fin 0" for r :: jsnum
    by (cases r) (auto simp: jsnum_ops isNaN_def)
  show ?thesis
    using Some z p opposite_signs_flip [OF o] n t o
    by (cases "direction s") (auto simp: spec_step_def Let_def jsnum_ops opposite_signs_def)
qed

lemma compare_loop_flip:
  fixes ss :: "('a, 'k::preorder) OrderStep list"
  assumes "\<forall>s\<in>set ss. \<forall>c. compare s = Some c \<longrightarrow>
             opposite_signs (c (key s a) (key s b)) (c (key s b) (key s a))"
  shows "compare_loop ss a b = - compare_loop ss b a"
  using assms
proof (induction ss)
  case Nil
  then show ?case by (simp add: jsnum_ops)
next
  case (Cons s ss)
  then have "spec_step s a b = - spec_step s b a" "compare_loop ss a b = - compare_loop ss b a"
    by (simp_all add: spec_step_flip)
  moreover have "(- r = Fin 0) = (r = Fin 0)" for r :: jsnum
    by (cases r) (simp_all add: jsnum_ops)
  ultimately show ?case
    by (simp only: compare_loop_step) (metis)
qed

lemma spec_step_same:
  fixes s :: "('a, 'k::preorder) OrderStep"
  assumes "\<forall>c. compare s = Some c \<longrightarrow> c (key s a) (key s a) = Fin 0"
  shows "spec_step s a a = Fin 0"
  using assms by (auto simp: spec_step_def Let_def split: option.splits)

subsection \<open>The merge sort\<close>

declare merge_sort.simps [simp del]












lemma merge_by_ties: "merge_by (\<lambda>a b. Fin 0) xs ys = xs @ ys"
  by (induction "\<lambda>(a::'a) (b::'a). Fin 0" xs ys rule: merge_by.induct)
     (simp_all add: jsnum_ops)

lemma merge_sort_ties: "merge_sort (\<lambda>a b. Fin 0) xs = xs"
proof (induction "\<lambda>(a::'a) (b::'a). Fin 0" xs rule: merge_sort.induct)
  case (1 xs)
  show ?case
  proof (cases "length xs \<le> 1")
    case True
    then show ?thesis by (simp add: merge_sort.simps [of _ xs])
  next
    case False
    then show ?thesis
      using "1.hyps" [OF False refl]
      by (simp add: merge_sort.simps [of _ xs] merge_by_ties Let_def)
  qed
qed

subsection \<open>Hosts\<close>



text \<open>What the contract gives.\<close>

lemma host_positions: "host_sort host \<Longrightarrow> set (host n c) = {..<n}"
proof -
  assume "host_sort host"
  then have "mset (host n c) = mset [0..<n]"
    by (simp add: host_sort_def)
  then have "set (host n c) = set [0..<n]"
    by (rule mset_eq_setD)
  then show ?thesis by auto
qed




lemma host_short: "host_sort host \<Longrightarrow> n \<le> 1 \<Longrightarrow> host n c = [0..<n]"
proof -
  assume h: "host_sort host" and n: "n \<le> 1"
  from h have m: "mset (host n c) = mset [0..<n]"
    by (simp add: host_sort_def)
  then have len: "length (host n c) = n"
    by (metis length_upt size_mset diff_zero)
  from h have s: "set (host n c) = {..<n}"
    by (rule host_positions)
  show ?thesis
  proof (cases "n = 0")
    case True
    with len show ?thesis by simp
  next
    case False
    with n have n1: "n = 1" by simp
    with len obtain x where x: "host n c = [x]"
      by (cases "host n c") auto
    with s n1 have "x = 0" by auto
    with x n1 show ?thesis by simp
  qed
qed





text \<open>The \<^verbatim>\<open>undefined\<close> elements end up last, whatever the host and the comparator.\<close>

lemma Array_sort_undefined_last:
  "\<exists>front. Array_sort host undef c xs = front @ filter undef xs
           \<and> length front = length (host (length (filter (\<lambda>x. \<not> undef x) xs))
                                        (\<lambda>i j. c (filter (\<lambda>x. \<not> undef x) xs ! i)
                                                  (filter (\<lambda>x. \<not> undef x) xs ! j)))"
  by (simp add: Array_sort_def Let_def)

lemma slice_then_sort_eq:
  "slice_then_sort host undef h array c
     = (h @ [Array_sort host undef c (h ! array)], length h)"
  by (simp add: slice_then_sort_def sort_in_place_def Array_slice_def new_Array_def)

subsection \<open>The decoration of the steps\<close>

lemma replicate_step: "m < n \<Longrightarrow> replicate (n - m) v = v # replicate (n - Suc m) v"
  by (metis Suc_diff_Suc replicate_Suc)

lemma update_fill:
  "m < n \<Longrightarrow> length xs = m
   \<Longrightarrow> (xs @ replicate (n - m) v)[m := w] = xs @ w # replicate (n - Suc m) v"
  by (simp add: replicate_step list_update_append)

text \<open>After \<open>m\<close> rounds the first \<open>m\<close> slots are settled and the others untouched.\<close>

lemma fold_pred:
  assumes "m \<le> length array"
  shows "fold (\<lambda>i (matches, keys, calls).
                  if p (array ! i)
                  then (matches[i := p (array ! i)], keys[i := Some (kf (array ! i))],
                        calls @ [(j, i)])
                  else (matches[i := p (array ! i)], keys, calls))
           [0..<m] (replicate (length array) False, replicate (length array) None, [])
         = (map p (take m array) @ replicate (length array - m) False,
            map (\<lambda>x. if p x then Some (kf x) else None) (take m array)
              @ replicate (length array - m) None,
            map (Pair j) (filter (\<lambda>i. p (array ! i)) [0..<m]))"
  using assms
proof (induction m)
  case 0
  then show ?case by simp
next
  case (Suc m)
  then have m: "m < length array" by simp
  show ?case
    using Suc.IH m
    apply (simp only: upt_Suc_append [OF le0] fold_append comp_apply)
    apply (simp add: take_Suc_conv_app_nth Let_def update_fill del: replicate_Suc upt_Suc)
    apply (simp add: replicate_step)
    done
qed

lemma fold_plain:
  assumes "m \<le> length array"
  shows "fold (\<lambda>i (keys, calls). (keys[i := Some (kf (array ! i))], calls @ [(j, i)]))
           [0..<m] (replicate (length array) None, [])
         = (map (\<lambda>x. Some (kf x)) (take m array) @ replicate (length array - m) None,
            map (Pair j) [0..<m])"
  using assms
proof (induction m)
  case 0
  then show ?case by simp
next
  case (Suc m)
  then have m: "m < length array" by simp
  show ?case
    using Suc.IH m
    apply (simp only: upt_Suc_append [OF le0] fold_append comp_apply)
    apply (simp add: take_Suc_conv_app_nth Let_def update_fill del: replicate_Suc upt_Suc)
    done
qed

text \<open>
  What the decoration of a step leaves behind: a key in exactly the slots of the elements
  the step applies to, the match flags of all elements, and one recorded call for each
  element the step applies to, in array order.
\<close>

lemma decorate_step_eq:
  "decorate_step j s array =
     (map (\<lambda>x. if applies s x then Some (key s x) else None) array,
      map_option (\<lambda>p. map p array) (predicate s),
      map (Pair j) (filter (\<lambda>i. applies s (array ! i)) [0..<length array]))"
  by (cases "predicate s")
     (simp_all add: decorate_step_def applies_def fold_pred fold_plain Let_def)

text \<open>The slot of every element a step applies to has been written.\<close>

lemma decorated_slot:
  "i < length array \<Longrightarrow> applies s (array ! i)
   \<Longrightarrow> fst (decorate_step j s array) ! i = Some (key s (array ! i))"
  by (simp add: decorate_step_eq)

lemma decorate_eq:
  "decorate j ss array =
     (map (\<lambda>s. map (\<lambda>x. if applies s x then Some (key s x) else None) array) ss,
      map (\<lambda>s. map_option (\<lambda>p. map p array) (predicate s)) ss,
      concat (map (\<lambda>(j, s). map (Pair j)
                     (filter (\<lambda>i. applies s (array ! i)) [0..<length array]))
                  (zip [j..<j + length ss] ss)))"
proof (induction ss arbitrary: j)
  case Nil
  then show ?case by simp
next
  case (Cons s ss)
  have "[j..<j + length (s # ss)] = j # [Suc j..<Suc j + length ss]"
    by (simp add: upt_rec)
  then show ?case
    by (simp add: decorate_step_eq Cons.IH del: upt_Suc)
qed

subsection \<open>The index comparator replays the comparator loop\<close>

lemma number_of_Int8_sign: "number_of_Int8 (Int8_of_sign d) = sign_number d"
  by (cases d) (simp_all add: number_of_Int8_def)


subsection \<open>\<^verbatim>\<open>Order.sort\<close> on the store\<close>


text \<open>In every branch the sort allocates its result and touches nothing else.\<close>

lemma Order_sort_allocates:
  "\<exists>out. fst (Order_sort host h array order) = (h @ [out], length h)
        \<and> (length (h ! array) \<le> 1 \<or> steps order = [] \<longrightarrow> out = h ! array)"
  by (auto simp: Order_sort_def Array_slice_def new_Array_def Let_def split: prod.splits)

subsection \<open>The builders\<close>

lemma Order_reverse_steps:
  "steps (Order_reverse order) =
     map (\<lambda>s. s\<lparr> direction := (if direction s = Plus_one then Minus_one else Plus_one) \<rparr>)
       (steps order)"
  by (simp add: Order_reverse_def)

lemma Order_reverse_twice: "Order_reverse (Order_reverse order) = order"
proof -
  have "s\<lparr> direction := (if (if direction s = Plus_one then Minus_one else Plus_one) = Plus_one
                            then Minus_one else Plus_one) \<rparr> = s" for s :: "('a, 'b) OrderStep"
    by (cases "direction s") simp_all
  then have "steps (Order_reverse (Order_reverse order)) = steps order"
    by (simp add: Order_reverse_steps comp_def)
  then show ?thesis
    by (simp add: Order.expand)
qed

lemma Order_when_steps:
  "steps (Order_when pred input) =
     map (\<lambda>step. step\<lparr> predicate :=
            Some (\<lambda>v. (case predicate step of None \<Rightarrow> True | Some p \<Rightarrow> p v) \<and> pred v) \<rparr>)
       (steps input)"
  by (auto simp: Order_when_def split: option.splits)

lemma Order_when_ties:
  "\<not> pred a \<or> \<not> pred b \<Longrightarrow> compare_loop (steps (Order_when pred input)) a b = Fin 0"
  by (rule compare_loop_ties) (auto simp: Order_when_steps spec_step_def applies_def)

lemma Order_map_steps:
  "steps (Order_map outer sub) =
     map (\<lambda>s. \<lparr> key = (\<lambda>t. key s (outer t)), direction = direction s, compare = compare s,
                predicate = map_option (\<lambda>p t. p (outer t)) (predicate s) \<rparr>) (steps sub)"
  by (auto simp: Order_map_def split: option.splits)

lemma lifted_loop:
  "compare_loop
     (map (\<lambda>s. \<lparr> key = (\<lambda>t. key s (outer t)), direction = direction s, compare = compare s,
                predicate = map_option (\<lambda>p t. p (outer t)) (predicate s) \<rparr>) ss) a b
   = compare_loop ss (outer a) (outer b)"
  by (induction ss) (auto simp: Let_def split: option.splits)

lemma Order_map_compare:
  "Order_compare (Order_map outer sub) a b = Order_compare sub (outer a) (outer b)"
  by (simp only: Order_compare_loop Order_map_steps lifted_loop)

lemma map_method_steps:
  "steps (map_method this outer sub) = steps this @ steps (Order_map outer sub)"
  by (simp add: map_method_def Let_def)

subsection \<open>The range of the index comparator\<close>

lemma sign_number_range:
  "sign_number d \<in> {Fin (- 1), Fin 0, Fin 1}" "- sign_number d \<in> {Fin (- 1), Fin 0, Fin 1}"
  by (cases d, simp_all add: jsnum_ops)+

lemma index_compare_cons:
  "index_compare (kj # ks) (m # ms) (dj # ds) (c # cs) ia ib
     \<in> {number_of_Int8 dj, - number_of_Int8 dj, index_compare ks ms ds cs ia ib}"
  by (simp add: Let_def split: option.splits)

lemma index_compare_range:
  "index_compare keysPerStep predicateMatchesPerStep (map Int8_of_sign ds) cmps ia ib
     \<in> {Fin (- 1), Fin 0, Fin 1}"
proof (induction ds arbitrary: keysPerStep predicateMatchesPerStep cmps)
  case Nil
  then show ?case by simp
next
  case (Cons d ds)
  show ?case
  proof (cases keysPerStep)
    case Nil
    then show ?thesis by simp
  next
    case K: (Cons kj ks)
    show ?thesis
    proof (cases predicateMatchesPerStep)
      case Nil
      then show ?thesis using K by simp
    next
      case M: (Cons m ms)
      show ?thesis
      proof (cases cmps)
        case Nil
        then show ?thesis using K M by simp
      next
        case C: (Cons c cs)
        have "index_compare keysPerStep predicateMatchesPerStep (map Int8_of_sign (d # ds)) cmps ia ib
          \<in> {sign_number d, - sign_number d,
              index_compare ks ms (map Int8_of_sign ds) cs ia ib}"
          unfolding K M C list.map number_of_Int8_sign [symmetric] by (rule index_compare_cons)
        then show ?thesis
          using Cons.IH [of ks ms cs] sign_number_range [of d] by (elim insertE) simp_all
      qed
    qed
  qed
qed


subsection \<open>The recorded key calls\<close>

lemma length_filter_positions:
  "length (filter (\<lambda>i. p (xs ! i)) [0..<length xs]) = length (filter p xs)"
proof -
  have "filter p (map (\<lambda>i. xs ! i) [0..<length xs])
        = map (\<lambda>i. xs ! i) (filter (p \<circ> (\<lambda>i. xs ! i)) [0..<length xs])"
    by (rule filter_map)
  then have "length (filter p xs) = length (filter (p \<circ> (\<lambda>i. xs ! i)) [0..<length xs])"
    by (simp add: map_nth)
  then show ?thesis by (simp add: comp_def)
qed

lemma length_filter_excluded:
  "length (filter p xs) = length xs - excluded p xs"
  using sum_length_filter_compl [of p xs] by (simp add: excluded_def)

lemma key_calls_eq:
  "key_calls host h array order =
     (if length (h ! array) \<le> 1 \<or> steps order = [] then []
      else snd (snd (decorate 0 (steps order) (h ! array))))"
  by (simp add: key_calls_def Order_sort_def Let_def split: prod.splits)

subsection \<open>Copying an Order\<close>

lemma fold_push: "fold (\<lambda>s pushed. pushed @ [s]) xs ys = ys @ xs"
  by (induction xs arbitrary: ys) simp_all

lemma Order_from_copy: "Order_from (Some source) = source"
  by (cases source) (simp add: Order_from_def fold_push)

lemma when_method_steps:
  "steps (when_method this pred inner) = steps this @ steps (Order_when pred inner)"
  by (simp add: when_method_def Let_def Order_from_copy)

subsection \<open>An \<^verbatim>\<open>undefined\<close> element on any host\<close>

text \<open>
  On every host that keeps the contract, the sort with an Order without steps returns
  \<^verbatim>\<open>[undefined, 1]\<close> as it is, and sorting a copy with the comparator moves the
  \<^verbatim>\<open>undefined\<close> element behind the number.
\<close>

lemma undefined_on_every_host:
  assumes "host_sort host"
  shows "fst (Order_sort host [[None, Some 1]] 0 no_steps)
           = ([[None, Some 1], [None, Some 1]], 1)"
    and "slice_then_sort host is_undefined [[None, Some 1]] 0 (Order_compare no_steps)
           = ([[None, Some 1], [Some 1, None]], 1)"
proof -
  show "fst (Order_sort host [[None, Some 1]] 0 no_steps)
           = ([[None, Some 1], [None, Some 1]], 1)"
    by (simp add: Order_sort_def no_steps_def Array_slice_def new_Array_def)
  have "host 1 c = [0]" for c
    using host_short [OF assms, of 1 c] by simp
  then show "slice_then_sort host is_undefined [[None, Some 1]] 0 (Order_compare no_steps)
           = ([[None, Some 1], [Some 1, None]], 1)"
    by (simp add: slice_then_sort_eq Array_sort_def is_undefined_def Let_def)
qed

section \<open>The claims\<close>




text \<open>
  C2. The derived comparator implements the step walk of the specification: with zero
  steps it returns 0; a step whose predicate is not satisfied by both arguments is
  skipped; a step with a custom comparator yielding a non-zero \<open>r\<close> returns the direction
  if \<open>r > 0\<close> and the negated direction otherwise; a step with the default comparator
  returns the negated direction if \<open>key(a) < key(b)\<close> and the direction if
  \<open>key(a) > key(b)\<close>; and the result is 0 when every step ties.
\<close>

theorem compare_implements_step_walk:
  fixes order :: "('a, 'k::preorder) Order"
  shows "Order_compare order a b = spec_compare order a b
    \<and> (steps order = [] \<longrightarrow> Order_compare order a b = Fin 0)
    \<and> ((\<forall>s\<in>set (steps order). spec_step s a b = Fin 0) \<longrightarrow> Order_compare order a b = Fin 0)
    \<and> (\<forall>s rest. steps order = s # rest \<longrightarrow>
         (predicate s \<noteq> None \<and> \<not> (applies s a \<and> applies s b)
            \<longrightarrow> Order_compare order a b = Order_compare (Order rest) a b)
       \<and> (applies s a \<and> applies s b \<longrightarrow>
            (\<forall>c. compare s = Some c \<longrightarrow>
               (c (key s a) (key s b) \<noteq> Fin 0 \<longrightarrow>
                  Order_compare order a b =
                    (if Fin 0 < c (key s a) (key s b) then sign_number (direction s)
                     else - sign_number (direction s)))
             \<and> (c (key s a) (key s b) = Fin 0 \<longrightarrow>
                  Order_compare order a b = Order_compare (Order rest) a b))
          \<and> (compare s = None \<longrightarrow>
               (key s a < key s b \<longrightarrow> Order_compare order a b = - sign_number (direction s))
             \<and> (key s b < key s a \<longrightarrow> Order_compare order a b = sign_number (direction s))
             \<and> (\<not> key s a < key s b \<and> \<not> key s b < key s a \<longrightarrow>
                  Order_compare order a b = Order_compare (Order rest) a b))))"
proof (intro conjI allI impI)
  show "Order_compare order a b = spec_compare order a b"
    by (simp add: Order_compare_loop spec_compare_def compare_loop_walk)
  show "Order_compare order a b = Fin 0" if "steps order = []"
    using that by (simp add: Order_compare_loop)
  show "Order_compare order a b = Fin 0" if "\<forall>s\<in>set (steps order). spec_step s a b = Fin 0"
    using that by (simp add: Order_compare_loop compare_loop_ties)
next
  fix s rest
  assume st: "steps order = s # rest"
  show "Order_compare order a b = Order_compare (Order rest) a b"
    if "predicate s \<noteq> None \<and> \<not> (applies s a \<and> applies s b)"
    using that st by (auto simp: Order_compare_loop applies_def)
  {
    fix c
    assume ok: "applies s a \<and> applies s b" and c: "compare s = Some c"
    show "Order_compare order a b =
        (if Fin 0 < c (key s a) (key s b) then sign_number (direction s)
         else - sign_number (direction s))" if "c (key s a) (key s b) \<noteq> Fin 0"
      using that st ok c
      by (auto simp: Order_compare_loop applies_def Let_def split: option.splits)
    show "Order_compare order a b = Order_compare (Order rest) a b"
      if "c (key s a) (key s b) = Fin 0"
      using that st ok c
      by (auto simp: Order_compare_loop applies_def Let_def split: option.splits)
  }
  {
    assume ok: "applies s a \<and> applies s b" and c: "compare s = None"
    show "Order_compare order a b = - sign_number (direction s)" if "key s a < key s b"
      using that st ok c
      by (auto simp: Order_compare_loop applies_def Let_def split: option.splits)
    show "Order_compare order a b = sign_number (direction s)" if "key s b < key s a"
      using that st ok c less_asym [of "key s b" "key s a"]
      by (auto simp: Order_compare_loop applies_def Let_def split: option.splits)
    show "Order_compare order a b = Order_compare (Order rest) a b"
      if "\<not> key s a < key s b \<and> \<not> key s b < key s a"
      using that st ok c
      by (auto simp: Order_compare_loop applies_def Let_def split: option.splits)
  }
qed

theorem compare_implements_step_walk_witness:
  "Order_compare example_order 3 5 = spec_compare example_order 3 5
   \<and> spec_compare example_order 3 5 = Fin 1
   \<and> (\<exists>s rest. steps example_order = s # rest \<and> applies s 3 \<and> applies s 5
         \<and> compare s = None \<and> key s 3 < key s 5
         \<and> Order_compare example_order 3 5 = - sign_number (direction s))"
  using compare_implements_step_walk [of example_order 3 5]
  by (simp add: example_defs spec_compare_def spec_step_def applies_def jsnum_ops Let_def)

text \<open>
  C3 (amended). For a single-step Order whose step has a predicate excluding \<open>k\<close> of the
  \<open>n\<close> input elements: when \<open>n \<ge> 2\<close>, \<^verbatim>\<open>Order.sort\<close> calls the step's key function exactly
  \<open>n - k\<close> times, once for each element the predicate accepts, in array order, and all of
  these calls are made by the decoration loop (none by the sort comparator); when \<open>n \<le> 1\<close>
  the sort returns a copy at once and calls the key function not at all. In every case no
  element is given to the key function twice, and none that the predicate excludes.
  As stated for all \<open>n\<close> the count \<open>n - k\<close> fails for a one-element array whose element the
  predicate accepts.
\<close>

theorem key_calls_of_one_guarded_step:
  assumes "steps order = [s]" and "predicate s = Some p"
  shows "(1 < length (h ! array) \<longrightarrow>
            key_calls host h array order
              = map (Pair 0) (filter (\<lambda>i. p ((h ! array) ! i)) [0..<length (h ! array)])
          \<and> length (key_calls host h array order) = length (h ! array) - excluded p (h ! array)
          \<and> key_calls host h array order = snd (snd (decorate 0 (steps order) (h ! array))))
       \<and> (length (h ! array) \<le> 1 \<longrightarrow> key_calls host h array order = [])
       \<and> distinct (key_calls host h array order)
       \<and> (\<forall>i < length (h ! array).
            \<not> p ((h ! array) ! i) \<longrightarrow> (0, i) \<notin> set (key_calls host h array order))"
proof -
  define arr where "arr = h ! array"
  have ap: "applies s x = p x" for x
    using assms(2) by (simp add: applies_def)
  have long: "key_calls host h array order = map (Pair 0) (filter (\<lambda>i. p (arr ! i)) [0..<length arr])"
    if "1 < length arr"
    using that assms(1) by (simp add: key_calls_eq decorate_eq ap arr_def)
  have short: "key_calls host h array order = []" if "length arr \<le> 1"
    using that by (simp add: key_calls_eq arr_def)
  have dec: "key_calls host h array order = snd (snd (decorate 0 (steps order) arr))"
    if "1 < length arr"
    using that assms(1) by (simp add: key_calls_eq arr_def)
  have count: "length (key_calls host h array order) = length arr - excluded p arr"
    if "1 < length arr"
    using long [OF that] by (simp add: length_filter_positions) (simp only: length_filter_excluded)
  have dist: "distinct (key_calls host h array order)"
  proof (cases "1 < length arr")
    case True
    then show ?thesis by (simp add: long distinct_map inj_on_def)
  next
    case False
    then show ?thesis by (simp add: short)
  qed
  have none: "(0, i) \<notin> set (key_calls host h array order)" if "\<not> p (arr ! i)" for i
  proof (cases "1 < length arr")
    case True
    then show ?thesis using that by (auto simp: long)
  next
    case False
    then show ?thesis by (simp add: short)
  qed
  show ?thesis
    using long short dec count dist none unfolding arr_def by blast
qed

theorem key_calls_of_one_guarded_step_witness:
  "steps (Order_by id (Some only_positive)) = [by_step id (Some only_positive)]
   \<and> predicate (by_step id (Some only_positive)) = Some is_positive
   \<and> key_calls merge_sorter [[3, - 1, 2, 0, 5]] 0 (Order_by id (Some only_positive)) = [(0, 0), (0, 2), (0, 4)]
   \<and> excluded is_positive [3, - 1, 2, 0, 5] = 2"
proof -
  have one: "steps (Order_by id (Some only_positive)) = [by_step id (Some only_positive)]"
    by (simp add: Order_by_def)
  have guarded: "predicate (by_step id (Some only_positive)) = Some is_positive"
    by (simp add: by_step_def only_positive_def)
  have "key_calls merge_sorter [[3, - 1, 2, 0, 5]] 0 (Order_by id (Some only_positive))
        = map (Pair 0) (filter (\<lambda>i. is_positive (([[3, - 1, 2, 0, 5]] ! 0) ! i))
                          [0..<length ([[3, - 1, 2, 0, 5 :: int]] ! 0)])"
    using key_calls_of_one_guarded_step
      [OF one guarded, where h = "[[3, - 1, 2, 0, 5]]" and array = 0 and host = merge_sorter]
    by simp
  then have "key_calls merge_sorter [[3, - 1, 2, 0, 5]] 0 (Order_by id (Some only_positive))
        = [(0, 0), (0, 2), (0, 4)]"
    by (simp add: is_positive_def upt_rec)
  moreover have "excluded is_positive [3, - 1, 2, 0, 5] = 2"
    by (simp add: excluded_def is_positive_def)
  ultimately show ?thesis using one guarded by simp
qed

text \<open>
  The count as first stated fails where the early return applies: one element that the
  predicate accepts gives \<open>n - k = 1\<close>, and the key function is not called.
\<close>

theorem key_calls_singleton_counterexample:
  "key_calls merge_sorter [[5]] 0 (Order_by id (Some only_positive)) = []
   \<and> length [5 :: int] - excluded is_positive [5] = 1
   \<and> length (key_calls merge_sorter [[5]] 0 (Order_by id (Some only_positive)))
       \<noteq> length [5 :: int] - excluded is_positive [5]"
  by (simp add: key_calls_def Order_sort_def excluded_def is_positive_def Array_slice_def
        new_Array_def)

text \<open>
  C4. \<^verbatim>\<open>Order.sort(arr, o)\<close> never changes the contents or the order of \<open>arr\<close>, nor of any
  other array of the store, and the array it returns is a new instance, distinct from
  \<open>arr\<close> and from every array in use; when \<open>arr\<close> has at most one element or the Order has
  no steps, the new array is a copy of \<open>arr\<close>.
\<close>

theorem sort_returns_fresh_array_and_keeps_input:
  assumes "array < length h"
  shows "(case fst (Order_sort host h array order) of (h', out) \<Rightarrow>
            out \<noteq> array \<and> out = length h \<and> length h' = Suc (length h)
          \<and> (\<forall>r < length h. h' ! r = h ! r)
          \<and> h' ! array = h ! array
          \<and> (length (h ! array) \<le> 1 \<or> steps order = [] \<longrightarrow> h' ! out = h ! array))"
proof -
  obtain out where "fst (Order_sort host h array order) = (h @ [out], length h)"
    and "length (h ! array) \<le> 1 \<or> steps order = [] \<longrightarrow> out = h ! array"
    using Order_sort_allocates [of host h array order] by blast
  then show ?thesis
    using assms by (simp add: nth_append)
qed

theorem sort_returns_fresh_array_and_keeps_input_witness:
  "(0 :: nat) < length [[3, - 1, 2, 0, 5 :: int]]
   \<and> fst (Order_sort merge_sorter [[3, - 1, 2, 0, 5]] 0 ascending)
       = ([[3, - 1, 2, 0, 5], [- 1, 0, 2, 3, 5]], 1)
   \<and> fst (Order_sort merge_sorter [[7]] 0 example_order) = ([[7], [7]], 1)"
proof -
  have valid: "(0 :: nat) < length [[3, - 1, 2, 0, 5 :: int]]" by simp
  have "case fst (Order_sort merge_sorter [[3, - 1, 2, 0, 5]] 0 ascending) of (h', out) \<Rightarrow>
          out \<noteq> 0 \<and> out = 1 \<and> length h' = 2 \<and> h' ! 0 = [3, - 1, 2, 0, 5]"
    using sort_returns_fresh_array_and_keeps_input
      [OF valid, where host = merge_sorter and order = ascending]
    by auto
  moreover have "fst (Order_sort merge_sorter [[3, - 1, 2, 0, 5]] 0 ascending)
       = ([[3, - 1, 2, 0, 5], [- 1, 0, 2, 3, 5]], 1)"
    by (simp add: ascending_def example_defs Order_sort_def new_Array_def Array_sort_def
          no_index_undefined_def merge_sorter_def merge_sort.simps decorate_step_def
          number_of_Int8_def jsnum_ops Let_def upt_rec)
  moreover have "fst (Order_sort merge_sorter [[7]] 0 example_order) = ([[7], [7]], 1)"
    by (simp add: Order_sort_def Array_slice_def new_Array_def)
  ultimately show ?thesis by simp
qed

text \<open>
  C5 (amended). For a fixed Order and a pair \<open>(a, b)\<close> on which no step's predicate holds
  for one element but not the other, and on whose keys every custom step comparator
  returns results of opposite signs for the two argument orders, \<open>compare(a, b)\<close> is
  \<open>-compare(b, a)\<close>; and \<open>compare(a, a)\<close> is 0 whenever every custom step comparator
  returns 0 on the key of \<open>a\<close> with itself. Steps with the default comparator need no
  condition. As stated for arbitrary custom comparators both parts fail: a comparator that
  always returns 1 makes \<open>compare(a, a)\<close> equal to 1.
\<close>

theorem compare_antisymmetric_for_antisymmetric_comparators:
  fixes order :: "('a, 'k::preorder) Order"
  shows "((\<forall>s\<in>set (steps order).
             (\<forall>p. predicate s = Some p \<longrightarrow> p a = p b)
           \<and> (\<forall>c. compare s = Some c \<longrightarrow>
                  opposite_signs (c (key s a) (key s b)) (c (key s b) (key s a))))
          \<longrightarrow> Order_compare order a b = - Order_compare order b a)
       \<and> ((\<forall>s\<in>set (steps order). \<forall>c. compare s = Some c \<longrightarrow> c (key s a) (key s a) = Fin 0)
          \<longrightarrow> Order_compare order a a = Fin 0)"
proof (intro conjI impI)
  assume "\<forall>s\<in>set (steps order).
             (\<forall>p. predicate s = Some p \<longrightarrow> p a = p b)
           \<and> (\<forall>c. compare s = Some c \<longrightarrow>
                  opposite_signs (c (key s a) (key s b)) (c (key s b) (key s a)))"
  then show "Order_compare order a b = - Order_compare order b a"
    by (simp only: Order_compare_loop) (rule compare_loop_flip, blast)
next
  assume "\<forall>s\<in>set (steps order). \<forall>c. compare s = Some c \<longrightarrow> c (key s a) (key s a) = Fin 0"
  then have "\<forall>s\<in>set (steps order). spec_step s a a = Fin 0"
    by (simp add: spec_step_same)
  then show "Order_compare order a a = Fin 0"
    by (simp only: Order_compare_loop compare_loop_ties)
qed

theorem compare_antisymmetric_for_antisymmetric_comparators_witness:
  "Order_compare example_order 3 5 = - Order_compare example_order 5 3
   \<and> Order_compare example_order 3 3 = Fin 0
   \<and> Order_compare example_order 3 5 = Fin 1
   \<and> Order_compare example_order 5 3 = Fin (- 1)"
proof -
  have symmetric:
    "\<forall>s\<in>set (steps example_order).
       (\<forall>p. predicate s = Some p \<longrightarrow> p 3 = p 5)
     \<and> (\<forall>c. compare s = Some c \<longrightarrow>
            opposite_signs (c (key s 3) (key s 5)) (c (key s 5) (key s 3)))"
    by (simp add: example_defs opposite_signs_def isNaN_def jsnum_ops Let_def)
  have reflexive:
    "\<forall>s\<in>set (steps example_order). \<forall>c. compare s = Some c \<longrightarrow> c (key s 3) (key s 3) = Fin 0"
    by (simp add: example_defs Let_def)
  have "Order_compare example_order 3 5 = - Order_compare example_order 5 3
        \<and> Order_compare example_order 3 3 = Fin 0"
    using compare_antisymmetric_for_antisymmetric_comparators [of example_order 3 5]
      symmetric reflexive
    by blast
  moreover have "Order_compare example_order 3 5 = Fin 1"
    "Order_compare example_order 5 3 = Fin (- 1)"
    by (simp_all add: example_defs Order_compare_def jsnum_ops Let_def)
  ultimately show ?thesis by simp
qed

text \<open>
  With a step comparator that returns 1 for every pair of keys, an element compared with
  itself gives 1: not 0, and not the negation of the result for the swapped pair.
\<close>

theorem compare_with_itself_counterexample:
  "Order_compare (Order_by id (Some with_always_one)) 0 0 = Fin 1
   \<and> Order_compare (Order_by id (Some with_always_one)) 0 0 \<noteq> Fin 0
   \<and> Order_compare (Order_by id (Some with_always_one)) 0 0
       \<noteq> - Order_compare (Order_by id (Some with_always_one)) 0 0"
  by (simp add: example_defs Order_compare_def jsnum_ops Let_def)

text \<open>
  C6. Reversing twice gives back the comparator: for every Order and all \<open>a\<close>, \<open>b\<close> the
  comparator of the twice reversed Order returns what the Order's comparator returns.
  \<^verbatim>\<open>reverse\<close> keeps the number of steps and each step's key, comparator and predicate, and
  flips each direction sign; reversing the empty Order yields the empty Order.
\<close>

theorem reverse_twice_restores_compare:
  "Order_compare (Order_reverse (Order_reverse order)) a b = Order_compare order a b
   \<and> length (steps (Order_reverse order)) = length (steps order)
   \<and> (\<forall>i < length (steps order).
        key (steps (Order_reverse order) ! i) = key (steps order ! i)
      \<and> compare (steps (Order_reverse order) ! i) = compare (steps order ! i)
      \<and> predicate (steps (Order_reverse order) ! i) = predicate (steps order ! i)
      \<and> direction (steps (Order_reverse order) ! i)
          = (if direction (steps order ! i) = Plus_one then Minus_one else Plus_one)
      \<and> sign_number (direction (steps (Order_reverse order) ! i))
          = - sign_number (direction (steps order ! i)))
   \<and> Order_reverse (Order []) = Order []
   \<and> reverse_method order = Order_reverse order"
proof (intro conjI allI impI)
  fix i assume "i < length (steps order)"
  then show "sign_number (direction (steps (Order_reverse order) ! i))
          = - sign_number (direction (steps order ! i))"
    by (cases "direction (steps order ! i)") (simp_all add: Order_reverse_steps jsnum_ops)
next
  show "Order_reverse (Order []) = Order []"
    by (simp add: Order_reverse_def)
qed (simp_all add: Order_reverse_twice Order_reverse_steps reverse_method_def)

theorem reverse_twice_restores_compare_witness:
  "Order_compare (Order_reverse (Order_reverse example_order)) 3 5 = Fin 1
   \<and> Order_compare (Order_reverse example_order) 3 5 = Fin (- 1)
   \<and> length (steps example_order) = 2
   \<and> direction (steps (Order_reverse example_order) ! 0) = Plus_one"
  using reverse_twice_restores_compare [of example_order 3 5]
  by (simp add: example_defs Order_compare_def Order_reverse_def jsnum_ops Let_def)

text \<open>
  C7. \<^verbatim>\<open>Order.when(pred, inner)\<close> gives each resulting step the conjunction of the step's
  own predicate (true when absent) with \<open>pred\<close>, and keeps key, direction and comparator;
  so the comparator of \<^verbatim>\<open>Order.when(pred, Order.by(key))\<close>, and of any guarded Order, returns
  0 for a pair of which at least one element fails \<open>pred\<close>; and guarding an Order without
  steps yields the empty Order. The instance form puts the guarded steps after the
  receiver's own.
\<close>

theorem when_conjoins_guard:
  "length (steps (Order_when pred inner)) = length (steps inner)
   \<and> (\<forall>i < length (steps inner).
        predicate (steps (Order_when pred inner) ! i)
          = Some (\<lambda>v. (case predicate (steps inner ! i) of None \<Rightarrow> True | Some p \<Rightarrow> p v) \<and> pred v)
      \<and> key (steps (Order_when pred inner) ! i) = key (steps inner ! i)
      \<and> direction (steps (Order_when pred inner) ! i) = direction (steps inner ! i)
      \<and> compare (steps (Order_when pred inner) ! i) = compare (steps inner ! i))
   \<and> (\<not> pred a \<or> \<not> pred b \<longrightarrow>
        Order_compare (Order_when pred (Order_by keyFn None)) a b = Fin 0
      \<and> Order_compare (Order_when pred inner) a b = Fin 0)
   \<and> (steps inner = [] \<longrightarrow> Order_when pred inner = Order [])
   \<and> (steps this = [] \<longrightarrow> when_method this pred inner = Order_when pred inner)
   \<and> steps (when_method this pred inner) = steps this @ steps (Order_when pred inner)"
proof (intro conjI allI impI)
  show "length (steps (Order_when pred inner)) = length (steps inner)"
    by (simp add: Order_when_steps)
  show "Order_compare (Order_when pred (Order_by keyFn None)) a b = Fin 0"
    if "\<not> pred a \<or> \<not> pred b"
    using that by (simp only: Order_compare_loop Order_when_ties)
  show "Order_compare (Order_when pred inner) a b = Fin 0" if "\<not> pred a \<or> \<not> pred b"
    using that by (simp only: Order_compare_loop Order_when_ties)
  show "Order_when pred inner = Order []" if "steps inner = []"
    using that by (simp add: Order_when_def)
  show "when_method this pred inner = Order_when pred inner" if "steps this = []"
    using that by (simp add: when_method_def)
  show "steps (when_method this pred inner) = steps this @ steps (Order_when pred inner)"
    by (rule when_method_steps)
qed (simp_all add: Order_when_steps)

theorem when_conjoins_guard_witness:
  "\<not> is_positive (- 1)
   \<and> Order_compare (Order_when is_positive (Order_by id None)) (- 1) 4 = Fin 0
   \<and> Order_compare (Order_by id None) (- 1) (4::int) = Fin (- 1)
   \<and> predicate (steps (Order_when is_positive (Order_by id (Some guarded_desc))) ! 0)
       = Some (\<lambda>v. is_positive v \<and> is_positive v)"
  using when_conjoins_guard [of is_positive "Order_by id (Some guarded_desc)" "- 1" 4 id]
  by (simp add: example_defs Order_compare_def Order_when_def jsnum_ops Let_def)

text \<open>
  C8. \<^verbatim>\<open>Order.map(outer, sub)\<close> lifts each step of \<open>sub\<close>: the key is the step's key after
  \<open>outer\<close>, the predicate (when present) the step's predicate after \<open>outer\<close>, direction and
  comparator are kept. Hence the lifted comparator on \<open>a\<close>, \<open>b\<close> is the comparator of
  \<open>sub\<close> on \<open>outer a\<close>, \<open>outer b\<close>. The instance form has the receiver's steps followed by
  the lifted steps, so it compares by the receiver first and by the lifted steps on a tie.
\<close>

theorem map_lifts_the_sub_order:
  "length (steps (Order_map outer sub)) = length (steps sub)
   \<and> (\<forall>i < length (steps sub).
        key (steps (Order_map outer sub) ! i) = (\<lambda>t. key (steps sub ! i) (outer t))
      \<and> predicate (steps (Order_map outer sub) ! i)
          = (case predicate (steps sub ! i) of
               None \<Rightarrow> None | Some p \<Rightarrow> Some (\<lambda>t. p (outer t)))
      \<and> direction (steps (Order_map outer sub) ! i) = direction (steps sub ! i)
      \<and> compare (steps (Order_map outer sub) ! i) = compare (steps sub ! i))
   \<and> Order_compare (Order_map outer sub) a b = Order_compare sub (outer a) (outer b)
   \<and> steps (map_method this outer sub) = steps this @ steps (Order_map outer sub)
   \<and> Order_compare (map_method this outer sub) a b
       = (if Order_compare this a b \<noteq> Fin 0 then Order_compare this a b
          else Order_compare sub (outer a) (outer b))"
proof (intro conjI allI impI)
  show "Order_compare (Order_map outer sub) a b = Order_compare sub (outer a) (outer b)"
    by (rule Order_map_compare)
  show "steps (map_method this outer sub) = steps this @ steps (Order_map outer sub)"
    by (rule map_method_steps)
  show "Order_compare (map_method this outer sub) a b
       = (if Order_compare this a b \<noteq> Fin 0 then Order_compare this a b
          else Order_compare sub (outer a) (outer b))"
    by (simp only: Order_compare_loop map_method_steps compare_loop_append)
       (simp only: Order_compare_loop [symmetric] Order_map_compare)
qed (simp_all add: Order_map_steps split: option.splits)

theorem map_lifts_the_sub_order_witness:
  "Order_compare (Order_map halve example_order) 6 11 = Order_compare example_order 3 5
   \<and> Order_compare example_order 3 5 = Fin 1
   \<and> length (steps (map_method example_order halve example_order)) = 4
   \<and> Order_compare (map_method (Order_by id (Some with_always_one)) halve example_order) 6 11
       = Fin 1"
  using map_lifts_the_sub_order [of halve example_order 6 11 "Order_by id (Some with_always_one)"]
  by (simp add: example_defs halve_def Order_compare_def Order_map_def map_method_def
        jsnum_ops Let_def)

text \<open>
  C9. The standalone \<^verbatim>\<open>number\<close> comparator: \<^verbatim>\<open>number(NaN, 5)\<close> is negative,
  \<^verbatim>\<open>number(5, NaN)\<close> is positive and \<^verbatim>\<open>number(NaN, NaN)\<close> is 0; NaN goes before every other
  number; and for arguments that are not NaN the result is negative exactly when \<open>a < b\<close>
  and positive exactly when \<open>a > b\<close>, with 0 for equal finite numbers. (For two equal
  infinities the difference is NaN, which is neither negative nor positive.)
\<close>

theorem number_puts_NaN_first:
  "number NaN (Fin 5) < Fin 0 \<and> Fin 0 < number (Fin 5) NaN \<and> number NaN NaN = Fin 0
   \<and> (\<not> isNaN v \<longrightarrow> number NaN v = Fin (- 1) \<and> number v NaN = Fin 1)
   \<and> (\<not> isNaN a \<and> \<not> isNaN b \<longrightarrow>
        (number a b < Fin 0) = (a < b) \<and> (Fin 0 < number a b) = (b < a))
   \<and> number (Fin x) (Fin x) = Fin 0"
  by (cases a; cases b; cases v) (simp_all add: number_def isNaN_def jsnum_ops)

theorem number_puts_NaN_first_witness:
  "\<not> isNaN (Fin 3) \<and> \<not> isNaN PosInf \<and> number (Fin 3) PosInf < Fin 0
   \<and> number NaN (Fin 3) = Fin (- 1) \<and> number (Fin 3) NaN = Fin 1
   \<and> number (Fin 7) (Fin 7) = Fin 0"
  using number_puts_NaN_first [of "Fin 3" "Fin 3" PosInf 7]
  by (simp add: number_def isNaN_def jsnum_ops)

text \<open>
  C10. Whatever the custom comparators of the steps return, the comparator of an Order and
  the index comparator used inside \<^verbatim>\<open>Order.sort\<close> (with the direction bytes the sort
  stores) return -1, 0 or 1 only. The standalone \<^verbatim>\<open>by\<close> and \<^verbatim>\<open>order\<close> differ: they hand
  on what the comparator they delegate to returns, so with the \<^verbatim>\<open>number\<close> comparator on 5
  and 3 they return the raw difference 2, where the Order built from the same options
  returns 1.
\<close>

theorem compare_results_are_unit_signs:
  "Order_compare order a b \<in> {Fin (- 1), Fin 0, Fin 1}
   \<and> index_compare keysPerStep predicateMatchesPerStep (map Int8_of_sign ds) cmps ia ib
       \<in> {Fin (- 1), Fin 0, Fin 1}
   \<and> Comparator_by id (Some with_number) (Fin 5) (Fin 3) = Fin 2
   \<and> Comparator_order [Comparator_by id (Some with_number)] (Fin 5) (Fin 3) = Fin 2
   \<and> Order_compare (Order_by id (Some with_number)) (Fin 5) (Fin 3) = Fin 1
   \<and> Comparator_by keyFn
         (Some \<lparr> opt_direction = None, opt_compare = Some c, opt_predicate = None \<rparr>) x y
       = c (keyFn x) (keyFn y)
   \<and> Comparator_order [c'] x y = c' x y"
proof (intro conjI)
  show "Order_compare order a b \<in> {Fin (- 1), Fin 0, Fin 1}"
    by (simp only: Order_compare_loop compare_loop_range)
  show "index_compare keysPerStep predicateMatchesPerStep (map Int8_of_sign ds) cmps ia ib
       \<in> {Fin (- 1), Fin 0, Fin 1}"
    by (rule index_compare_range)
next
  show "Comparator_by keyFn
         (Some \<lparr> opt_direction = None, opt_compare = Some c, opt_predicate = None \<rparr>) x y
       = c (keyFn x) (keyFn y)"
    by (simp add: Comparator_by_def)
  show "Comparator_order [c'] x y = c' x y"
    by (simp add: Let_def)
qed (simp_all add: example_defs Comparator_by_def Order_compare_def number_def isNaN_def
       jsnum_ops Let_def)

theorem compare_results_are_unit_signs_witness:
  "Order_compare (Order_by id (Some with_difference)) 9 2 = Fin 1
   \<and> difference 9 2 = Fin 7
   \<and> index_compare [[Some 9, Some 2]] [None] (map Int8_of_sign [Plus_one]) [Some difference] 0 1
       = Fin 1"
  using compare_results_are_unit_signs
    [of "Order_by id (Some with_difference)" 9 2 "[[Some 9, Some 2]]" "[None]" "[Plus_one]"
        "[Some difference]" 0 1]
  by (simp add: example_defs Order_compare_def number_of_Int8_def jsnum_ops Let_def)

end
